theory Spec2Isabelle
  imports Complex_Main
begin

section \<open>Numbers, errors and the random source\<close>

text \<open>
  The TypeScript sources compute with JavaScript numbers. They are read here as real numbers
  with exact arithmetic: decimal literals as the decimal fractions they denote, \<open>Math.sqrt\<close>,
  \<open>Math.sin\<close> and \<open>Math.cos\<close> as \<open>sqrt\<close>, \<open>sin\<close> and \<open>cos\<close>. Rounding is not modelled.

  \<open>Math.PI\<close> is the double nearest to \<open>pi\<close>, 3.141592653589793115997963..., which is
  \<open>884279719003555 / 2 ^ 48\<close> and lies below \<open>pi\<close>.

  \<open>Math.random()\<close> is a sequence \<open>rng\<close> of reals together with the index of the next draw,
  which every function that draws returns advanced. The host guarantees \<open>0 \<le> r < 1\<close> for each
  draw; that contract is \<open>valid_rng\<close>. Outside the contract an array lookup may yield
  \<open>undefined\<close>, and reading a property of \<open>undefined\<close> throws \<open>TypeError\<close>: those throws are the
  \<open>Inl\<close> results below.
\<close>

definition Math_PI :: real where
  "Math_PI = 884279719003555 / 281474976710656"


type_synonym rng = "nat \<Rightarrow> real"

definition valid_rng :: "rng \<Rightarrow> bool" where
  "valid_rng rng \<longleftrightarrow> (\<forall>i. 0 \<le> rng i \<and> rng i < 1)"

datatype error = TypeError

text \<open>\<open>xs[k]\<close> for a number \<open>k\<close> that \<open>Math.floor\<close> produced: \<open>undefined\<close> out of range.\<close>

definition js_index :: "'a list \<Rightarrow> int \<Rightarrow> 'a option" where
  "js_index xs k = (if 0 \<le> k \<and> k < int (length xs) then Some (xs ! nat k) else None)"

section \<open>ExhibitionScene.addVintageTVWall\<close>

datatype size_class = Small | Medium | Large

record size_config =
  width :: real
  height :: real

text \<open>An entry of \<open>placedTVs\<close>: \<open>{ x, y, width, height }\<close> (the fields \<open>x\<close>, \<open>y\<close> are \<open>tv_x\<close>, \<open>tv_y\<close>).\<close>

record placedTV = size_config +
  tv_x :: real
  tv_y :: real

datatype wall_name = Back | Front | Left | Right

record wall =
  name :: wall_name
  pos :: "real \<times> real \<times> real"
  rot :: real

text \<open>
  The local constants of \<open>addVintageTVWall\<close>. The functions below take them as a parameter;
  \<open>source_consts\<close> holds the values the source gives them (\<open>maxTries\<close> is the literal bound 50 of
  the inner \<open>for\<close> loop).
\<close>

record layout_consts =
  roomSize :: real
  wallHeight :: real
  wallDepth :: real
  maxTVsPerWall :: nat
  maxAttempts :: nat
  maxTries :: nat

definition source_consts :: layout_consts where
  "source_consts = \<lparr>roomSize = 15, wallHeight = 8, wallDepth = 7.5,
     maxTVsPerWall = 10, maxAttempts = 100, maxTries = 50\<rparr>"

fun sizeConfigs :: "size_class \<Rightarrow> size_config" where
  "sizeConfigs Small = \<lparr>width = 0.8, height = 0.6\<rparr>"
| "sizeConfigs Medium = \<lparr>width = 1.0, height = 0.8\<rparr>"
| "sizeConfigs Large = \<lparr>width = 1.2, height = 0.9\<rparr>"

definition sizes :: "size_class list" where
  "sizes = [Small, Medium, Large]"

definition walls :: "layout_consts \<Rightarrow> wall list" where
  "walls c =
    [\<lparr>name = Back, pos = (0, 0, - wallDepth c + 0.1), rot = 0\<rparr>,
     \<lparr>name = Front, pos = (0, 0, wallDepth c - 0.1), rot = Math_PI\<rparr>,
     \<lparr>name = Left, pos = (- wallDepth c + 0.1, 0, 0), rot = Math_PI / 2\<rparr>,
     \<lparr>name = Right, pos = (wallDepth c - 0.1, 0, 0), rot = - Math_PI / 2\<rparr>]"

definition isSideWall :: "wall \<Rightarrow> bool" where
  "isSideWall w \<longleftrightarrow> name w = Left \<or> name w = Right"

subsection \<open>The overlap test\<close>

definition overlapX :: "real \<Rightarrow> size_config \<Rightarrow> placedTV \<Rightarrow> bool" where
  "overlapX x config p \<longleftrightarrow> \<bar>x - tv_x p\<bar> < (width config + width p) / 2"

definition overlapY :: "real \<Rightarrow> size_config \<Rightarrow> placedTV \<Rightarrow> bool" where
  "overlapY y config p \<longleftrightarrow> \<bar>y - tv_y p\<bar> < (height config + height p) / 2"

text \<open>The \<open>for (const placedTV of placedTVs)\<close> loop: \<open>canPlace\<close> falls at the first overlap.\<close>

fun canPlace :: "real \<Rightarrow> real \<Rightarrow> size_config \<Rightarrow> placedTV list \<Rightarrow> bool" where
  "canPlace x y config [] = True"
| "canPlace x y config (p # ps) =
     (if overlapX x config p \<and> overlapY y config p then False else canPlace x y config ps)"

subsection \<open>The placer: the loop over \<open>tries\<close>\<close>

definition sample_x :: "layout_consts \<Rightarrow> bool \<Rightarrow> size_config \<Rightarrow> real \<Rightarrow> real" where
  "sample_x c side config r =
     (if side then r * (wallHeight c - height config) + height config / 2
      else (r - 0.5) * (roomSize c - width config))"

definition sample_y :: "layout_consts \<Rightarrow> bool \<Rightarrow> size_config \<Rightarrow> real \<Rightarrow> real" where
  "sample_y c side config r =
     (if side then (r - 0.5) * (roomSize c - width config)
      else r * (wallHeight c - height config) + height config / 2)"

text \<open>
  \<open>tryPlace rng c w config placed n i\<close> runs the remaining \<open>n\<close> iterations of the \<open>tries\<close> loop
  with \<open>i\<close> the index of the next draw. Each iteration draws twice, first for \<open>x\<close>, then for
  \<open>y\<close>. The result is \<open>(Some (bestX, bestY), i')\<close> when \<open>foundPosition\<close> is set and
  \<open>(None, i')\<close> when the loop runs out. \<open>config\<close> is \<open>undefined\<close> (\<open>None\<close>) when the size lookup
  missed; the first iteration then throws on \<open>config.height\<close> or \<open>config.width\<close>.
\<close>

fun tryPlace :: "rng \<Rightarrow> layout_consts \<Rightarrow> wall \<Rightarrow> size_config option \<Rightarrow> placedTV list
    \<Rightarrow> nat \<Rightarrow> nat \<Rightarrow> error + ((real \<times> real) option \<times> nat)" where
  "tryPlace rng c w config placed 0 i = Inr (None, i)"
| "tryPlace rng c w None placed (Suc n) i = Inl TypeError"
| "tryPlace rng c w (Some config) placed (Suc n) i =
     (let x = sample_x c (isSideWall w) config (rng i);
          y = sample_y c (isSideWall w) config (rng (i + 1))
      in if canPlace x y config placed then Inr (Some (x, y), i + 2)
         else tryPlace rng c w (Some config) placed n (i + 2))"

subsection \<open>VintageTV: what the constructor draws and where it throws\<close>

datatype knob_position = Bottom | RightSide | LeftSide

text \<open>
  Of \<open>TVDesign\<close> the fields that the layout reads or that can make the constructor throw
  (\<open>size\<close> is \<open>size_tv\<close>).
  The name and the two colours are drawn too (draws \<open>i\<close>, \<open>i + 2\<close>, \<open>i + 4\<close>) and only stored.
\<close>

record TVDesign =
  size_tv :: "size_class option"
  hasWoodGrain :: bool
  knobPosition :: "knob_position option"

definition getRandomDesign :: "rng \<Rightarrow> nat \<Rightarrow> TVDesign \<times> nat" where
  "getRandomDesign rng i =
     (\<lparr>size_tv = js_index sizes \<lfloor>rng (i + 1) * 3\<rfloor>,
       hasWoodGrain = (rng (i + 3) > 0.7),
       knobPosition = js_index [Bottom, RightSide, LeftSide] \<lfloor>rng (i + 5) * 3\<rfloor>\<rparr>,
      i + 6)"

text \<open>
  \<open>new VintageTV()\<close>: \<open>createTVModel\<close> reads \<open>dims.casing\<close>, which throws when the size is
  \<open>undefined\<close>; \<open>createControlKnobs\<close> draws once for \<open>knobCount\<close> and calls
  \<open>positions[knobPosition]\<close> for each knob, which throws when the position is \<open>undefined\<close>.
\<close>

definition new_VintageTV :: "rng \<Rightarrow> nat \<Rightarrow> error + (TVDesign \<times> nat)" where
  "new_VintageTV rng i =
     (let (design, j) = getRandomDesign rng i
      in if size_tv design = None then Inl TypeError
         else let knobCount = \<lfloor>rng j * 2\<rfloor> + 1
              in if 0 < knobCount \<and> knobPosition design = None then Inl TypeError
                 else Inr (design, j + 1))"

text \<open>\<open>baseDims[design.size] || 1.0\<close>\<close>

fun baseDims :: "size_class option \<Rightarrow> real" where
  "baseDims (Some Small) = 1.0"
| "baseDims (Some Medium) = 1.25"
| "baseDims (Some Large) = 1.5"
| "baseDims None = 1.0"

subsection \<open>The layout loop of one wall\<close>

record tvGroup =
  position :: "real \<times> real \<times> real"
  rotation_y :: real
  scale :: "real \<times> real \<times> real"
  design :: TVDesign

text \<open>The argument of \<open>tvGroup.position.set\<close>.\<close>

definition world_position :: "wall \<Rightarrow> real \<Rightarrow> real \<Rightarrow> real \<times> real \<times> real" where
  "world_position w bestX bestY =
     (case pos w of (p0, p1, p2) \<Rightarrow>
        (p0 + (if isSideWall w then 0 else bestX),
         p1 + bestX * (if isSideWall w then 1 else 0) + bestY * (if isSideWall w then 0 else 1),
         p2 + (if isSideWall w then bestY else 0)))"

text \<open>
  The variables of the \<open>while\<close> loop (\<open>placedTVs\<close>, \<open>tvIndex\<close>, \<open>attempts\<close>), the scene's
  \<open>galleryObjects\<close>, and \<open>rnd\<close>, the index of the next draw.
\<close>

record layout_state =
  placedTVs :: "placedTV list"
  tvIndex :: nat
  attempts :: nat
  galleryObjects :: "tvGroup list"
  rnd :: nat

text \<open>
  One iteration of the \<open>while\<close> loop. A position is found only when the size lookup
  succeeded, so \<open>config\<close> is never \<open>undefined\<close> where the footprint is pushed; that case is
  given the \<open>TypeError\<close> that reading \<open>config.width\<close> would throw.
\<close>

definition wall_body :: "rng \<Rightarrow> layout_consts \<Rightarrow> wall \<Rightarrow> layout_state \<Rightarrow> error + layout_state" where
  "wall_body rng c w s =
     (let s1 = s\<lparr>attempts := attempts s + 1\<rparr>;
          randomSize = js_index sizes \<lfloor>rng (rnd s1) * real (length sizes)\<rfloor>;
          config = map_option sizeConfigs randomSize
      in case tryPlace rng c w config (placedTVs s1) (maxTries c) (rnd s1 + 1) of
           Inl e \<Rightarrow> Inl e
         | Inr (None, i) \<Rightarrow> Inr (s1\<lparr>rnd := i\<rparr>)
         | Inr (Some (bestX, bestY), i) \<Rightarrow>
             (case new_VintageTV rng i of
                Inl e \<Rightarrow> Inl e
              | Inr (d, j) \<Rightarrow>
                  (case config of
                     None \<Rightarrow> Inl TypeError
                   | Some cfg \<Rightarrow>
                       (let sc = baseDims (size_tv d);
                            g = \<lparr>position = world_position w bestX bestY, rotation_y = rot w,
                                 scale = (sc, sc, 1), design = d\<rparr>
                        in Inr (s1\<lparr>placedTVs := placedTVs s1 @
                                     [\<lparr>width = width cfg, height = height cfg,
                                       tv_x = bestX, tv_y = bestY\<rparr>],
                                   tvIndex := tvIndex s1 + 1,
                                   galleryObjects := galleryObjects s1 @ [g],
                                   rnd := j\<rparr>)))))"

function wall_loop :: "rng \<Rightarrow> layout_consts \<Rightarrow> wall \<Rightarrow> layout_state \<Rightarrow> error + layout_state" where
  "wall_loop rng c w s =
     (if tvIndex s < maxTVsPerWall c \<and> attempts s < maxAttempts c then
        (case wall_body rng c w s of
           Inl e \<Rightarrow> Inl e
         | Inr s' \<Rightarrow> wall_loop rng c w s')
      else Inr s)"
  by pat_completeness auto
termination
  by (relation "measure (\<lambda>(rng, c, w, s). maxAttempts c - attempts s)")
     (auto simp: wall_body_def Let_def split: sum.splits option.splits prod.splits)

declare wall_loop.simps [simp del]

subsection \<open>All four walls\<close>

text \<open>
  The callback's local variables when a wall's loop has ended, kept here so that a finished
  layout can be spoken of wall by wall.
\<close>

record wall_result =
  on_wall :: wall_name
  placed :: "placedTV list"
  placed_count :: nat
  attempts_used :: nat

fun forEach_wall :: "rng \<Rightarrow> layout_consts \<Rightarrow> wall list \<Rightarrow> tvGroup list \<times> nat
    \<Rightarrow> error + (wall_result list \<times> tvGroup list \<times> nat)" where
  "forEach_wall rng c [] (objs, i) = Inr ([], objs, i)"
| "forEach_wall rng c (w # ws) (objs, i) =
     (case wall_loop rng c w
             \<lparr>placedTVs = [], tvIndex = 0, attempts = 0, galleryObjects = objs, rnd = i\<rparr> of
        Inl e \<Rightarrow> Inl e
      | Inr s \<Rightarrow>
          (case forEach_wall rng c ws (galleryObjects s, rnd s) of
             Inl e \<Rightarrow> Inl e
           | Inr (rs, objs', i') \<Rightarrow>
               Inr (\<lparr>on_wall = name w, placed = placedTVs s, placed_count = tvIndex s,
                     attempts_used = attempts s\<rparr> # rs, objs', i')))"

definition layout :: "rng \<Rightarrow> layout_consts \<Rightarrow> error + (wall_result list \<times> tvGroup list \<times> nat)" where
  "layout rng c = forEach_wall rng c (walls c) ([], 0)"

definition addVintageTVWall :: "rng \<Rightarrow> error + (wall_result list \<times> tvGroup list \<times> nat)" where
  "addVintageTVWall rng = layout rng source_consts"


subsection \<open>The separating-axis condition\<close>

text \<open>
  The condition on two footprints of one wall:
  \<open>|x1 - x2| \<ge> (w1 + w2) / 2\<close> or \<open>|y1 - y2| \<ge> (h1 + h2) / 2\<close>.
\<close>

definition separated :: "placedTV \<Rightarrow> placedTV \<Rightarrow> bool" where
  "separated p q \<longleftrightarrow>
     \<bar>tv_x p - tv_x q\<bar> \<ge> (width p + width q) / 2 \<or> \<bar>tv_y p - tv_y q\<bar> \<ge> (height p + height q) / 2"

fun no_overlap :: "placedTV list \<Rightarrow> bool" where
  "no_overlap [] = True"
| "no_overlap (p # ps) = ((\<forall>q \<in> set ps. separated p q) \<and> no_overlap ps)"

definition layout_inv :: "layout_state \<Rightarrow> bool" where
  "layout_inv s \<longleftrightarrow> no_overlap (placedTVs s) \<and> length (placedTVs s) = tvIndex s"

text \<open>
  The rectangle a television covers on its wall in world space: centred at
  \<open>world_position\<close>, its width along the wall's horizontal axis (world x on the back and front
  walls, world z on the side walls) and its height along the vertical axis (world y).
\<close>

definition world_horizontal :: "wall \<Rightarrow> placedTV \<Rightarrow> real" where
  "world_horizontal w p =
     (case world_position w (tv_x p) (tv_y p) of (wx, wy, wz) \<Rightarrow> if isSideWall w then wz else wx)"

definition world_vertical :: "wall \<Rightarrow> placedTV \<Rightarrow> real" where
  "world_vertical w p = (case world_position w (tv_x p) (tv_y p) of (wx, wy, wz) \<Rightarrow> wy)"

definition world_overlap :: "wall \<Rightarrow> placedTV \<Rightarrow> placedTV \<Rightarrow> bool" where
  "world_overlap w p q \<longleftrightarrow>
     \<bar>world_horizontal w p - world_horizontal w q\<bar> < (width p + width q) / 2 \<and>
     \<bar>world_vertical w p - world_vertical w q\<bar> < (height p + height q) / 2"


section \<open>The three.js vector operations that FPSCameraControls calls\<close>

text \<open>
  \<open>THREE.Vector3\<close>, \<open>THREE.Euler\<close> and \<open>THREE.Quaternion\<close> belong to the three.js library. The
  operations are written as the library defines them; each returns the value the library
  leaves in the receiver.
\<close>

record Vector3 =
  vec_x :: real
  vec_y :: real
  vec_z :: real

definition Vec3 :: "real \<Rightarrow> real \<Rightarrow> real \<Rightarrow> Vector3" where
  "Vec3 a b c = \<lparr>vec_x = a, vec_y = b, vec_z = c\<rparr>"

definition add_vec :: "Vector3 \<Rightarrow> Vector3 \<Rightarrow> Vector3" where
  "add_vec a b = Vec3 (vec_x a + vec_x b) (vec_y a + vec_y b) (vec_z a + vec_z b)"

definition sub_vec :: "Vector3 \<Rightarrow> Vector3 \<Rightarrow> Vector3" where
  "sub_vec a b = Vec3 (vec_x a - vec_x b) (vec_y a - vec_y b) (vec_z a - vec_z b)"

definition multiplyScalar :: "Vector3 \<Rightarrow> real \<Rightarrow> Vector3" where
  "multiplyScalar a k = Vec3 (vec_x a * k) (vec_y a * k) (vec_z a * k)"

definition divideScalar :: "Vector3 \<Rightarrow> real \<Rightarrow> Vector3" where
  "divideScalar a k = multiplyScalar a (1 / k)"

definition length_vec :: "Vector3 \<Rightarrow> real" where
  "length_vec a = sqrt (vec_x a * vec_x a + vec_y a * vec_y a + vec_z a * vec_z a)"

text \<open>\<open>normalize() { return this.divideScalar(this.length() || 1) }\<close>\<close>

definition normalize_vec :: "Vector3 \<Rightarrow> Vector3" where
  "normalize_vec a = divideScalar a (if length_vec a = 0 then 1 else length_vec a)"

datatype euler_order = XYZ | YXZ

record Euler =
  e_x :: real
  e_y :: real
  e_z :: real
  order :: euler_order

record Quaternion =
  q_x :: real
  q_y :: real
  q_z :: real
  q_w :: real

text \<open>\<open>Quaternion.setFromEuler\<close>, for the two orders the camera takes.\<close>

definition setFromEuler :: "Euler \<Rightarrow> Quaternion" where
  "setFromEuler e =
     (let c1 = cos (e_x e / 2); c2 = cos (e_y e / 2); c3 = cos (e_z e / 2);
          s1 = sin (e_x e / 2); s2 = sin (e_y e / 2); s3 = sin (e_z e / 2)
      in case order e of
           XYZ \<Rightarrow> \<lparr>q_x = s1 * c2 * c3 + c1 * s2 * s3, q_y = c1 * s2 * c3 - s1 * c2 * s3,
                   q_z = c1 * c2 * s3 + s1 * s2 * c3, q_w = c1 * c2 * c3 - s1 * s2 * s3\<rparr>
         | YXZ \<Rightarrow> \<lparr>q_x = s1 * c2 * c3 + c1 * s2 * s3, q_y = c1 * s2 * c3 - s1 * c2 * s3,
                   q_z = c1 * c2 * s3 - s1 * s2 * c3, q_w = c1 * c2 * c3 + s1 * s2 * s3\<rparr>)"

text \<open>\<open>Vector3.applyQuaternion\<close>: \<open>v + q.w * t + cross(q.xyz, t)\<close> with \<open>t = 2 * cross(q.xyz, v)\<close>.\<close>

definition applyQuaternion :: "Vector3 \<Rightarrow> Quaternion \<Rightarrow> Vector3" where
  "applyQuaternion v q =
     (let tx = 2 * (q_y q * vec_z v - q_z q * vec_y v);
          ty = 2 * (q_z q * vec_x v - q_x q * vec_z v);
          tz = 2 * (q_x q * vec_y v - q_y q * vec_x v)
      in Vec3 (vec_x v + q_w q * tx + q_y q * tz - q_z q * ty)
              (vec_y v + q_w q * ty + q_z q * tx - q_x q * tz)
              (vec_z v + q_w q * tz + q_x q * ty - q_y q * tx))"

text \<open>
  Of \<open>THREE.PerspectiveCamera\<close> the position and the rotation. The library keeps
  \<open>camera.quaternion\<close> equal to \<open>setFromEuler\<close> of \<open>camera.rotation\<close> on every write to the
  rotation.
\<close>

record PerspectiveCamera =
  cam_position :: Vector3
  cam_rotation :: Euler

definition quaternion :: "PerspectiveCamera \<Rightarrow> Quaternion" where
  "quaternion cam = setFromEuler (cam_rotation cam)"

section \<open>FPSCameraControls\<close>

record Bounds =
  minX :: real
  maxX :: real
  minZ :: real
  maxZ :: real
  minY :: real
  maxY :: real

text \<open>The argument of \<open>setBounds\<close>, a \<open>Partial\<close> of the bounds: \<open>None\<close> is an absent key.\<close>

record PartialBounds =
  p_minX :: "real option"
  p_maxX :: "real option"
  p_minZ :: "real option"
  p_maxZ :: "real option"
  p_minY :: "real option"
  p_maxY :: "real option"

datatype listener =
  L_keydown | L_keyup | L_click | L_pointerlockchange | L_pointerlockerror | L_contextmenu
  | L_mousemove

datatype host_call = RequestPointerLock | ExitPointerLock

text \<open>
  The fields of the class, and the part of the host the class talks to: the event listeners
  it has registered (on \<open>document\<close> and on \<open>domElement\<close>), whether
  \<open>document.pointerLockElement === this.domElement\<close>, and the pointer-lock calls made so far.
\<close>

record FPSCameraControls =
  camera :: PerspectiveCamera
  keys :: "string \<Rightarrow> bool option"
  moveSpeed :: real
  lookSpeed :: real
  isPointerLocked :: bool
  pitch :: real
  yaw :: real
  velocity :: Vector3
  acceleration :: Vector3
  friction :: real
  bounds :: Bounds
  listeners :: "listener set"
  pointerLockElement :: bool
  host_calls :: "host_call list"

text \<open>
  The field initialisers and the constructor (\<open>setupEventListeners\<close>); the element does not
  hold the pointer lock when its controller is constructed.
\<close>

definition new_FPSCameraControls :: "PerspectiveCamera \<Rightarrow> FPSCameraControls" where
  "new_FPSCameraControls cam =
     \<lparr>camera = cam, keys = Map.empty, moveSpeed = 0.01, lookSpeed = 0.0002,
      isPointerLocked = False, pitch = 0, yaw = 0,
      velocity = Vec3 0 0 0, acceleration = Vec3 0 0 0, friction = 0.95,
      bounds = \<lparr>minX = -7, maxX = 7, minZ = -7, maxZ = 7, minY = 1, maxY = 8\<rparr>,
      listeners = {L_keydown, L_keyup, L_click, L_pointerlockchange, L_pointerlockerror,
                   L_contextmenu},
      pointerLockElement = False, host_calls = []\<rparr>"

definition onClick :: "FPSCameraControls \<Rightarrow> FPSCameraControls" where
  "onClick s =
     (if \<not> isPointerLocked s then s\<lparr>host_calls := host_calls s @ [RequestPointerLock]\<rparr> else s)"

definition onPointerLockChange :: "FPSCameraControls \<Rightarrow> FPSCameraControls" where
  "onPointerLockChange s =
     (let s1 = s\<lparr>isPointerLocked := pointerLockElement s\<rparr>
      in if isPointerLocked s1 then s1\<lparr>listeners := insert L_mousemove (listeners s1)\<rparr>
         else s1\<lparr>listeners := listeners s1 - {L_mousemove}\<rparr>)"

definition onPointerLockError :: "FPSCameraControls \<Rightarrow> FPSCameraControls" where
  "onPointerLockError s = s"

definition onKeyDown :: "string \<Rightarrow> FPSCameraControls \<Rightarrow> FPSCameraControls" where
  "onKeyDown code s = s\<lparr>keys := (keys s)(code \<mapsto> True)\<rparr>"

definition onKeyUp :: "string \<Rightarrow> FPSCameraControls \<Rightarrow> FPSCameraControls" where
  "onKeyUp code s = s\<lparr>keys := (keys s)(code \<mapsto> False)\<rparr>"

text \<open>\<open>this.keys[code]\<close> in a condition: true only for a key recorded as \<open>true\<close>.\<close>

definition held :: "FPSCameraControls \<Rightarrow> string \<Rightarrow> bool" where
  "held s code \<longleftrightarrow> keys s code = Some True"

text \<open>\<open>Math.max(-Math.PI / 2, Math.min(Math.PI / 2, p))\<close>\<close>

definition clamp_pitch :: "real \<Rightarrow> real" where
  "clamp_pitch p = max (- Math_PI / 2) (min (Math_PI / 2) p)"

text \<open>
  \<open>onMouseMove\<close> with \<open>event.movementX = dx\<close> and \<open>event.movementY = dy\<close> (\<open>dx || 0\<close> is \<open>dx\<close>
  for a number).
\<close>

definition onMouseMove :: "real \<Rightarrow> real \<Rightarrow> FPSCameraControls \<Rightarrow> FPSCameraControls" where
  "onMouseMove dx dy s =
     (if \<not> isPointerLocked s then s
      else let sensitivity = lookSpeed s * 50;
               yaw' = yaw s - dx * sensitivity;
               pitch' = clamp_pitch (pitch s - dy * sensitivity)
           in s\<lparr>yaw := yaw', pitch := pitch',
                camera := (camera s)\<lparr>cam_rotation :=
                  (cam_rotation (camera s))\<lparr>order := YXZ, e_y := yaw', e_x := pitch'\<rparr>\<rparr>\<rparr>)"

text \<open>Lines 125 to 136 of \<open>update\<close>: the vectors \<open>forward\<close> and \<open>right\<close>.\<close>

definition movement_basis :: "PerspectiveCamera \<Rightarrow> Vector3 \<times> Vector3" where
  "movement_basis cam =
     (let forward = applyQuaternion (Vec3 0 0 (-1)) (quaternion cam);
          right = applyQuaternion (Vec3 1 0 0) (quaternion cam)
      in (normalize_vec (forward\<lparr>vec_y := 0\<rparr>), normalize_vec (right\<lparr>vec_y := 0\<rparr>)))"

text \<open>Lines 139 to 163: the acceleration from the held keys, scaled by \<open>moveSpeed\<close>.\<close>

definition input_acceleration :: "FPSCameraControls \<Rightarrow> Vector3" where
  "input_acceleration s =
     (let (forward, right) = movement_basis (camera s);
          a0 = Vec3 0 0 0;
          a1 = (if held s ''KeyW'' then add_vec a0 forward else a0);
          a2 = (if held s ''KeyS'' then sub_vec a1 forward else a1);
          a3 = (if held s ''KeyA'' then sub_vec a2 right else a2);
          a4 = (if held s ''KeyD'' then add_vec a3 right else a3);
          a5 = (if held s ''Space'' then a4\<lparr>vec_y := vec_y a4 + 1\<rparr> else a4);
          a6 = (if held s ''ShiftLeft'' then a5\<lparr>vec_y := vec_y a5 - 1\<rparr> else a5)
      in multiplyScalar a6 (moveSpeed s))"

text \<open>Lines 124 to 173: the new acceleration and velocity.\<close>

definition accelerate :: "FPSCameraControls \<Rightarrow> FPSCameraControls" where
  "accelerate s =
     (let acc = input_acceleration s;
          v1 = add_vec (velocity s) acc;
          maxVelocity = 0.08;
          v2 = (if length_vec v1 > maxVelocity
                then multiplyScalar (normalize_vec v1) maxVelocity else v1)
      in s\<lparr>acceleration := acc, velocity := multiplyScalar v2 (friction s)\<rparr>)"

definition clamp_to_bounds :: "Bounds \<Rightarrow> Vector3 \<Rightarrow> Vector3" where
  "clamp_to_bounds b p =
     (let p1 = p\<lparr>vec_x := max (minX b) (min (maxX b) (vec_x p))\<rparr>;
          p2 = p1\<lparr>vec_z := max (minZ b) (min (maxZ b) (vec_z p1))\<rparr>
      in p2\<lparr>vec_y := max (minY b) (min (maxY b) (vec_y p2))\<rparr>)"

text \<open>Lines 175 to 192: the new position, clamped, copied to the camera.\<close>

definition integrate :: "FPSCameraControls \<Rightarrow> FPSCameraControls" where
  "integrate s =
     (let newPosition = add_vec (cam_position (camera s)) (velocity s)
      in s\<lparr>camera := (camera s)\<lparr>cam_position := clamp_to_bounds (bounds s) newPosition\<rparr>\<rparr>)"

definition update :: "FPSCameraControls \<Rightarrow> FPSCameraControls" where
  "update s = (if \<not> isPointerLocked s then s else integrate (accelerate s))"

definition merge_bounds :: "Bounds \<Rightarrow> PartialBounds \<Rightarrow> Bounds" where
  "merge_bounds b p =
     \<lparr>minX = (case p_minX p of None \<Rightarrow> minX b | Some v \<Rightarrow> v),
      maxX = (case p_maxX p of None \<Rightarrow> maxX b | Some v \<Rightarrow> v),
      minZ = (case p_minZ p of None \<Rightarrow> minZ b | Some v \<Rightarrow> v),
      maxZ = (case p_maxZ p of None \<Rightarrow> maxZ b | Some v \<Rightarrow> v),
      minY = (case p_minY p of None \<Rightarrow> minY b | Some v \<Rightarrow> v),
      maxY = (case p_maxY p of None \<Rightarrow> maxY b | Some v \<Rightarrow> v)\<rparr>"

definition setBounds :: "PartialBounds \<Rightarrow> FPSCameraControls \<Rightarrow> FPSCameraControls" where
  "setBounds p s = s\<lparr>bounds := merge_bounds (bounds s) p\<rparr>"

text \<open>
  \<open>document.exitPointerLock()\<close> is a request to the host and is only logged here. The host
  drops the lock afterwards and reports it with a \<open>pointerlockchange\<close> event; both are steps
  of the host (see \<open>reachable\<close>), not of \<open>dispose\<close>.
\<close>

definition exitPointerLock :: "FPSCameraControls \<Rightarrow> FPSCameraControls" where
  "exitPointerLock s = s\<lparr>host_calls := host_calls s @ [ExitPointerLock]\<rparr>"

definition dispose :: "FPSCameraControls \<Rightarrow> FPSCameraControls" where
  "dispose s =
     (let s1 = s\<lparr>listeners := listeners s -
                 {L_keydown, L_keyup, L_click, L_pointerlockchange, L_pointerlockerror,
                  L_contextmenu, L_mousemove}\<rparr>
      in if isPointerLocked s1 then exitPointerLock s1 else s1)"

subsection \<open>Events from the host\<close>

datatype event =
  KeyDown string | KeyUp string | Click | PointerLockChange | PointerLockError | ContextMenu
  | MouseMove real real

fun listener_of :: "event \<Rightarrow> listener" where
  "listener_of (KeyDown code) = L_keydown"
| "listener_of (KeyUp code) = L_keyup"
| "listener_of Click = L_click"
| "listener_of PointerLockChange = L_pointerlockchange"
| "listener_of PointerLockError = L_pointerlockerror"
| "listener_of ContextMenu = L_contextmenu"
| "listener_of (MouseMove dx dy) = L_mousemove"

fun handler :: "event \<Rightarrow> FPSCameraControls \<Rightarrow> FPSCameraControls" where
  "handler (KeyDown code) s = onKeyDown code s"
| "handler (KeyUp code) s = onKeyUp code s"
| "handler Click s = onClick s"
| "handler PointerLockChange s = onPointerLockChange s"
| "handler PointerLockError s = onPointerLockError s"
| "handler ContextMenu s = s"
| "handler (MouseMove dx dy) s = onMouseMove dx dy s"

text \<open>The host delivers an event to the listener registered for it, if there is one.\<close>

definition dispatch :: "event \<Rightarrow> FPSCameraControls \<Rightarrow> FPSCameraControls" where
  "dispatch e s = (if listener_of e \<in> listeners s then handler e s else s)"

text \<open>
  The states a controller goes through: constructed, then any interleaving of delivered
  events, the host granting or revoking the pointer lock, ticks, \<open>setBounds\<close> and \<open>dispose\<close>.
\<close>

inductive reachable :: "FPSCameraControls \<Rightarrow> bool" where
  constructed: "reachable (new_FPSCameraControls cam)"
| delivered: "reachable s \<Longrightarrow> reachable (dispatch e s)"
| host_lock: "reachable s \<Longrightarrow> reachable (s\<lparr>pointerLockElement := b\<rparr>)"
| tick: "reachable s \<Longrightarrow> reachable (update s)"
| bounds_set: "reachable s \<Longrightarrow> reachable (setBounds p s)"
| disposed: "reachable s \<Longrightarrow> reachable (dispose s)"

text \<open>A run of pointer deltas, each handled by \<open>onMouseMove\<close>.\<close>

fun look_all :: "(real \<times> real) list \<Rightarrow> FPSCameraControls \<Rightarrow> FPSCameraControls" where
  "look_all [] s = s"
| "look_all ((dx, dy) # ds) s = look_all ds (onMouseMove dx dy s)"

text \<open>\<open>n\<close> ticks in a row.\<close>

fun ticks :: "nat \<Rightarrow> FPSCameraControls \<Rightarrow> FPSCameraControls" where
  "ticks 0 s = s"
| "ticks (Suc n) s = ticks n (update s)"

definition no_movement_keys :: "FPSCameraControls \<Rightarrow> bool" where
  "no_movement_keys s \<longleftrightarrow>
     \<not> held s ''KeyW'' \<and> \<not> held s ''KeyS'' \<and> \<not> held s ''KeyA'' \<and> \<not> held s ''KeyD'' \<and>
     \<not> held s ''Space'' \<and> \<not> held s ''ShiftLeft''"

definition in_bounds :: "Bounds \<Rightarrow> Vector3 \<Rightarrow> bool" where
  "in_bounds b p \<longleftrightarrow>
     minX b \<le> vec_x p \<and> vec_x p \<le> maxX b \<and> minY b \<le> vec_y p \<and> vec_y p \<le> maxY b \<and>
     minZ b \<le> vec_z p \<and> vec_z p \<le> maxZ b"

text \<open>The pitch that a run of pointer deltas asks for, at sensitivity \<open>k\<close>: the sum of \<open>- dy * k\<close>.\<close>

fun pitch_driving :: "real \<Rightarrow> (real \<times> real) list \<Rightarrow> real" where
  "pitch_driving k [] = 0"
| "pitch_driving k ((dx, dy) # ds) = - dy * k + pitch_driving k ds"


text \<open>
  What the class keeps true of its private fields: the constants it never writes, and the
  speed limit that the last tick left.
\<close>

definition class_inv :: "FPSCameraControls \<Rightarrow> bool" where
  "class_inv s \<longleftrightarrow>
     moveSpeed s = 0.01 \<and> lookSpeed s = 0.0002 \<and> friction s = 0.95 \<and>
     length_vec (velocity s) \<le> 0.08"

text \<open>What holds of a wall's result when its loop has ended.\<close>

definition wall_result_ok :: "layout_consts \<Rightarrow> wall_result \<Rightarrow> bool" where
  "wall_result_ok c r \<longleftrightarrow>
     no_overlap (placed r) \<and> length (placed r) = placed_count r \<and>
     placed_count r \<le> maxTVsPerWall c \<and> attempts_used r \<le> maxAttempts c"

section \<open>Concrete inputs\<close>

text \<open>
  A random source under which every attempt succeeds at its first try and every television
  is small: of the ten draws of an attempt, the second and third (the anchor) depend on the
  attempt's number, the others are 0.
\<close>

definition grid_rng :: rng where
  "grid_rng i = (if i mod 10 = 1 then real ((i div 10) mod 10) * 7 / 100
                 else if i mod 10 = 2 then real ((i div 10) mod 10) / 20 else 0)"

text \<open>The footprints \<open>grid_rng\<close> leaves on the back and front walls, and on the side walls.\<close>

definition grid_back :: "placedTV list" where
  "grid_back =
     [\<lparr>width = 4 / 5, height = 3 / 5, tv_x = - (71 / 10), tv_y = 3 / 10\<rparr>,
      \<lparr>width = 4 / 5, height = 3 / 5, tv_x = - (3053 / 500), tv_y = 67 / 100\<rparr>,
      \<lparr>width = 4 / 5, height = 3 / 5, tv_x = - (639 / 125), tv_y = 26 / 25\<rparr>,
      \<lparr>width = 4 / 5, height = 3 / 5, tv_x = - (2059 / 500), tv_y = 141 / 100\<rparr>,
      \<lparr>width = 4 / 5, height = 3 / 5, tv_x = - (781 / 250), tv_y = 89 / 50\<rparr>,
      \<lparr>width = 4 / 5, height = 3 / 5, tv_x = - (213 / 100), tv_y = 43 / 20\<rparr>,
      \<lparr>width = 4 / 5, height = 3 / 5, tv_x = - (142 / 125), tv_y = 63 / 25\<rparr>,
      \<lparr>width = 4 / 5, height = 3 / 5, tv_x = - (71 / 500), tv_y = 289 / 100\<rparr>,
      \<lparr>width = 4 / 5, height = 3 / 5, tv_x = 213 / 250, tv_y = 163 / 50\<rparr>,
      \<lparr>width = 4 / 5, height = 3 / 5, tv_x = 923 / 500, tv_y = 363 / 100\<rparr>]"

definition grid_side :: "placedTV list" where
  "grid_side =
     [\<lparr>width = 4 / 5, height = 3 / 5, tv_x = 3 / 10, tv_y = - (71 / 10)\<rparr>,
      \<lparr>width = 4 / 5, height = 3 / 5, tv_x = 409 / 500, tv_y = - (639 / 100)\<rparr>,
      \<lparr>width = 4 / 5, height = 3 / 5, tv_x = 167 / 125, tv_y = - (142 / 25)\<rparr>,
      \<lparr>width = 4 / 5, height = 3 / 5, tv_x = 927 / 500, tv_y = - (497 / 100)\<rparr>,
      \<lparr>width = 4 / 5, height = 3 / 5, tv_x = 593 / 250, tv_y = - (213 / 50)\<rparr>,
      \<lparr>width = 4 / 5, height = 3 / 5, tv_x = 289 / 100, tv_y = - (71 / 20)\<rparr>,
      \<lparr>width = 4 / 5, height = 3 / 5, tv_x = 426 / 125, tv_y = - (71 / 25)\<rparr>,
      \<lparr>width = 4 / 5, height = 3 / 5, tv_x = 1963 / 500, tv_y = - (213 / 100)\<rparr>,
      \<lparr>width = 4 / 5, height = 3 / 5, tv_x = 1111 / 250, tv_y = - (71 / 50)\<rparr>,
      \<lparr>width = 4 / 5, height = 3 / 5, tv_x = 2481 / 500, tv_y = - (71 / 100)\<rparr>]"

definition grid_results :: "wall_result list" where
  "grid_results =
     [\<lparr>on_wall = Back, placed = grid_back, placed_count = 10, attempts_used = 10\<rparr>,
      \<lparr>on_wall = Front, placed = grid_back, placed_count = 10, attempts_used = 10\<rparr>,
      \<lparr>on_wall = Left, placed = grid_side, placed_count = 10, attempts_used = 10\<rparr>,
      \<lparr>on_wall = Right, placed = grid_side, placed_count = 10, attempts_used = 10\<rparr>]"

definition medium_at_origin :: placedTV where
  "medium_at_origin = \<lparr>width = 1.0, height = 0.8, tv_x = 0, tv_y = 0\<rparr>"

text \<open>
  The camera as \<open>Camera.setupCamera\<close> leaves it, a controller on it, and the controller once
  the host has granted the pointer lock and delivered \<open>pointerlockchange\<close>.
\<close>

definition cam0 :: PerspectiveCamera where
  "cam0 = \<lparr>cam_position = Vec3 0 2 0, cam_rotation = \<lparr>e_x = 0, e_y = 0, e_z = 0, order = XYZ\<rparr>\<rparr>"

definition released0 :: FPSCameraControls where
  "released0 = new_FPSCameraControls cam0"

definition captured0 :: FPSCameraControls where
  "captured0 = dispatch PointerLockChange (released0\<lparr>pointerLockElement := True\<rparr>)"

text \<open>
  Two pointer deltas: three times \<open>Math.PI\<close> of pitch downwards, then \<open>Math.PI\<close> upwards.
\<close>

definition zigzag_deltas :: "(real \<times> real) list" where
  "zigzag_deltas = [(0, 300 * Math_PI), (0, - 100 * Math_PI)]"

text \<open>Two pointer deltas, each \<open>Math.PI\<close> of pitch downwards.\<close>

definition downward_deltas :: "(real \<times> real) list" where
  "downward_deltas = [(0, 100 * Math_PI), (0, 100 * Math_PI)]"


text \<open>At the wall \<open>maxX\<close> and moving into it; coasting in the open.\<close>

definition at_wall :: FPSCameraControls where
  "at_wall = captured0\<lparr>camera := cam0\<lparr>cam_position := Vec3 7 2 0\<rparr>, velocity := Vec3 (1 / 20) 0 0\<rparr>"

definition coasting :: FPSCameraControls where
  "coasting = captured0\<lparr>velocity := Vec3 (2 / 25) 0 0\<rparr>"

section \<open>The layout: lemmas\<close>


lemma separated_sym: "separated p q \<Longrightarrow> separated q p"
  by (auto simp: separated_def abs_minus_commute add.commute)

lemma canPlace_iff:
  "canPlace x y config ps \<longleftrightarrow> (\<forall>p \<in> set ps. \<not> (overlapX x config p \<and> overlapY y config p))"
  by (induction ps) auto

lemma canPlace_separated:
  "canPlace x y config ps \<Longrightarrow> q \<in> set ps \<Longrightarrow>
   separated q \<lparr>width = width config, height = height config, tv_x = x, tv_y = y\<rparr>"
  by (auto simp: canPlace_iff separated_def overlapX_def overlapY_def abs_minus_commute add.commute
      not_less)

lemma no_overlap_snoc:
  "no_overlap (ps @ [p]) \<longleftrightarrow> no_overlap ps \<and> (\<forall>q \<in> set ps. separated q p)"
  by (induction ps) auto

lemma no_overlap_nth_less:
  "no_overlap ps \<Longrightarrow> i < j \<Longrightarrow> j < length ps \<Longrightarrow> separated (ps ! i) (ps ! j)"
proof (induction ps arbitrary: i j)
  case Nil
  then show ?case by simp
next
  case (Cons p ps)
  show ?case
  proof (cases i)
    case 0
    with Cons.prems show ?thesis by (cases j) auto
  next
    case (Suc i')
    with Cons.prems obtain j' where "j = Suc j'" by (cases j) auto
    with Suc Cons show ?thesis by auto
  qed
qed

lemma no_overlap_nth:
  assumes "no_overlap ps" "i < length ps" "j < length ps" "i \<noteq> j"
  shows "separated (ps ! i) (ps ! j)"
proof (cases "i < j")
  case True
  with assms show ?thesis by (simp add: no_overlap_nth_less)
next
  case False
  with assms have "j < i" by simp
  with assms have "separated (ps ! j) (ps ! i)" by (simp add: no_overlap_nth_less)
  then show ?thesis by (rule separated_sym)
qed

subsection \<open>The placer\<close>

lemma tryPlace_found:
  "tryPlace rng c w cfg ps n i = Inr (Some (x, y), j) \<Longrightarrow>
   \<exists>config. cfg = Some config \<and> canPlace x y config ps"
proof (induction n arbitrary: i)
  case 0
  then show ?case by simp
next
  case (Suc n)
  then show ?case
    by (cases cfg) (auto simp: Let_def split: if_splits)
qed

lemma tryPlace_total:
  "\<exists>r. tryPlace rng c w (Some config) ps n i = Inr r"
  by (induction n arbitrary: i) (auto simp: Let_def)

subsection \<open>One iteration\<close>

lemma wall_body_attempts:
  "wall_body rng c w s = Inr s' \<Longrightarrow> attempts s' = attempts s + 1"
  by (auto simp: wall_body_def Let_def split: sum.splits option.splits prod.splits)

lemma wall_body_inv:
  assumes "wall_body rng c w s = Inr s'" "layout_inv s"
  shows "layout_inv s'"
  using assms
  by (auto simp: wall_body_def Let_def layout_inv_def no_overlap_snoc
      split: sum.splits option.splits prod.splits
      dest!: tryPlace_found intro: canPlace_separated)

lemma wall_body_tvIndex:
  "wall_body rng c w s = Inr s' \<Longrightarrow>
   (tvIndex s' = tvIndex s \<and> length (galleryObjects s') = length (galleryObjects s)) \<or>
   (tvIndex s' = tvIndex s + 1 \<and> length (galleryObjects s') = length (galleryObjects s) + 1)"
  by (auto simp: wall_body_def Let_def split: sum.splits option.splits prod.splits)

lemma floor_random:
  assumes "0 \<le> r" "r < 1" "0 < n"
  shows "0 \<le> \<lfloor>r * real n\<rfloor> \<and> \<lfloor>r * real n\<rfloor> < int n"
proof -
  from assms have "r * real n < 1 * real n" by (intro mult_strict_right_mono) auto
  then have "\<lfloor>r * real n\<rfloor> < int n" by (simp add: floor_less_iff)
  moreover from assms have "0 \<le> r * real n" by simp
  ultimately show ?thesis by simp
qed

lemma js_index_random:
  assumes "0 \<le> r" "r < 1" "xs \<noteq> []"
  shows "\<exists>v. js_index xs \<lfloor>r * real (length xs)\<rfloor> = Some v"
  using floor_random [of r "length xs"] assms by (simp add: js_index_def)

lemma new_VintageTV_total:
  assumes "valid_rng rng"
  shows "\<exists>d. new_VintageTV rng i = Inr (d, i + 7)"
proof -
  from assms have r: "0 \<le> rng k \<and> rng k < 1" for k by (simp add: valid_rng_def)
  from js_index_random [of "rng (i + 1)" sizes] r
  obtain v where v: "js_index sizes \<lfloor>rng (i + 1) * 3\<rfloor> = Some v" by (auto simp: sizes_def)
  from js_index_random [of "rng (i + 5)" "[Bottom, RightSide, LeftSide]"] r
  obtain k where k: "js_index [Bottom, RightSide, LeftSide] \<lfloor>rng (i + 5) * 3\<rfloor> = Some k" by auto
  from v k show ?thesis
    by (simp add: new_VintageTV_def getRandomDesign_def Let_def add.assoc)
qed

lemma wall_body_total:
  assumes "valid_rng rng"
  shows "\<exists>s'. wall_body rng c w s = Inr s'"
proof -
  from assms have r: "0 \<le> rng k \<and> rng k < 1" for k by (simp add: valid_rng_def)
  from js_index_random [of "rng (rnd s)" sizes] r
  obtain v where v: "js_index sizes \<lfloor>rng (rnd s) * real (length sizes)\<rfloor> = Some v"
    by (auto simp: sizes_def)
  obtain res where t: "tryPlace rng c w (Some (sizeConfigs v)) (placedTVs s) (maxTries c) (rnd s + 1)
      = Inr res"
    using tryPlace_total by blast
  obtain a j where res: "res = (a, j)" by (cases res)
  show ?thesis
  proof (cases a)
    case None
    with v t res show ?thesis by (simp add: wall_body_def Let_def)
  next
    case (Some xy)
    obtain d where "new_VintageTV rng j = Inr (d, j + 7)"
      using new_VintageTV_total [OF assms] by blast
    with Some v t res show ?thesis
      by (cases xy) (simp add: wall_body_def Let_def)
  qed
qed

subsection \<open>The loop of one wall\<close>

lemma wall_loop_inv:
  "wall_loop rng c w s = Inr s' \<Longrightarrow> layout_inv s \<Longrightarrow> layout_inv s'"
proof (induction rng c w s rule: wall_loop.induct)
  case (1 rng c w s)
  show ?case
  proof (cases "tvIndex s < maxTVsPerWall c \<and> attempts s < maxAttempts c")
    case True
    with "1.prems"(1) obtain s1 where b: "wall_body rng c w s = Inr s1"
      and l: "wall_loop rng c w s1 = Inr s'"
      by (subst (asm) wall_loop.simps) (auto split: sum.splits)
    from b "1.prems"(2) have "layout_inv s1" by (rule wall_body_inv)
    with "1.IH" True b l show ?thesis by simp
  next
    case False
    with "1.prems" show ?thesis by (subst (asm) wall_loop.simps) simp
  qed
qed

lemma wall_loop_bounds:
  "wall_loop rng c w s = Inr s' \<Longrightarrow> tvIndex s \<le> maxTVsPerWall c \<Longrightarrow> attempts s \<le> maxAttempts c \<Longrightarrow>
   tvIndex s' \<le> maxTVsPerWall c \<and> attempts s' \<le> maxAttempts c \<and>
   length (galleryObjects s') + tvIndex s = length (galleryObjects s) + tvIndex s'"
proof (induction rng c w s rule: wall_loop.induct)
  case (1 rng c w s)
  show ?case
  proof (cases "tvIndex s < maxTVsPerWall c \<and> attempts s < maxAttempts c")
    case True
    with "1.prems"(1) obtain s1 where b: "wall_body rng c w s = Inr s1"
      and l: "wall_loop rng c w s1 = Inr s'"
      by (subst (asm) wall_loop.simps) (auto split: sum.splits)
    from b have a: "attempts s1 = attempts s + 1" by (rule wall_body_attempts)
    from b have g: "(tvIndex s1 = tvIndex s \<and> length (galleryObjects s1) = length (galleryObjects s)) \<or>
      (tvIndex s1 = tvIndex s + 1 \<and> length (galleryObjects s1) = length (galleryObjects s) + 1)"
      by (rule wall_body_tvIndex)
    with True have t: "tvIndex s1 \<le> maxTVsPerWall c" by auto
    from a True have "attempts s1 \<le> maxAttempts c" by simp
    with "1.IH" True b l t
    have "tvIndex s' \<le> maxTVsPerWall c \<and> attempts s' \<le> maxAttempts c \<and>
      length (galleryObjects s') + tvIndex s1 = length (galleryObjects s1) + tvIndex s'"
      by simp
    with g show ?thesis by auto
  next
    case False
    with "1.prems" show ?thesis by (subst (asm) wall_loop.simps) simp
  qed
qed

lemma wall_loop_total:
  "valid_rng rng \<Longrightarrow> \<exists>s'. wall_loop rng c w s = Inr s'"
proof (induction rng c w s rule: wall_loop.induct)
  case (1 rng c w s)
  show ?case
  proof (cases "tvIndex s < maxTVsPerWall c \<and> attempts s < maxAttempts c")
    case True
    from wall_body_total [OF "1.prems"] obtain s1 where b: "wall_body rng c w s = Inr s1"
      by blast
    with "1.IH" True "1.prems" obtain s' where "wall_loop rng c w s1 = Inr s'" by blast
    with True b show ?thesis by (subst wall_loop.simps) simp
  next
    case False
    then show ?thesis by (subst wall_loop.simps) auto
  qed
qed

subsection \<open>All walls\<close>

lemma forEach_wall_results:
  "forEach_wall rng c ws (objs, i) = Inr (rs, objs', i') \<Longrightarrow>
   map on_wall rs = map name ws \<and> (\<forall>r \<in> set rs. wall_result_ok c r) \<and>
   length objs' = length objs + sum_list (map placed_count rs)"
proof (induction ws arbitrary: objs i rs)
  case Nil
  then show ?case by simp
next
  case (Cons w ws)
  let ?s0 = "\<lparr>placedTVs = [], tvIndex = 0, attempts = 0, galleryObjects = objs, rnd = i\<rparr>"
  from Cons.prems obtain s rs1 where l: "wall_loop rng c w ?s0 = Inr s"
    and f: "forEach_wall rng c ws (galleryObjects s, rnd s) = Inr (rs1, objs', i')"
    and rs: "rs = \<lparr>on_wall = name w, placed = placedTVs s, placed_count = tvIndex s,
                   attempts_used = attempts s\<rparr> # rs1"
    by (auto split: sum.splits prod.splits)
  have "layout_inv ?s0" by (simp add: layout_inv_def)
  with l have inv: "layout_inv s" by (rule wall_loop_inv)
  from wall_loop_bounds [OF l]
  have b: "tvIndex s \<le> maxTVsPerWall c \<and> attempts s \<le> maxAttempts c \<and>
    length (galleryObjects s) = length objs + tvIndex s"
    by simp
  from Cons.IH [OF f] inv b rs show ?case
    by (auto simp: wall_result_ok_def layout_inv_def)
qed

lemma forEach_wall_total:
  "valid_rng rng \<Longrightarrow> \<exists>r. forEach_wall rng c ws (objs, i) = Inr r"
proof (induction ws arbitrary: objs i)
  case Nil
  then show ?case by simp
next
  case (Cons w ws)
  let ?s0 = "\<lparr>placedTVs = [], tvIndex = 0, attempts = 0, galleryObjects = objs, rnd = i\<rparr>"
  from wall_loop_total [OF Cons.prems] obtain s where l: "wall_loop rng c w ?s0 = Inr s"
    by blast
  from Cons.IH [OF Cons.prems] obtain r where "forEach_wall rng c ws (galleryObjects s, rnd s) = Inr r"
    by blast
  with l show ?case by (cases r) auto
qed

subsection \<open>Evaluation on concrete inputs\<close>

text \<open>Unfolding rules that the simplifier can follow on literal arguments.\<close>

lemma tryPlace_numeral:
  "tryPlace rng c w (Some config) ps (numeral k) i =
     (let x = sample_x c (isSideWall w) config (rng i);
          y = sample_y c (isSideWall w) config (rng (i + 1))
      in if canPlace x y config ps then Inr (Some (x, y), i + 2)
         else tryPlace rng c w (Some config) ps (pred_numeral k) (i + 2))"
  by (simp add: numeral_eq_Suc)

lemma wall_loop_continue:
  "tvIndex s < maxTVsPerWall c \<Longrightarrow> attempts s < maxAttempts c \<Longrightarrow>
   wall_loop rng c w s =
     (case wall_body rng c w s of Inl e \<Rightarrow> Inl e | Inr s' \<Rightarrow> wall_loop rng c w s')"
  by (subst wall_loop.simps) simp

lemma wall_loop_stop:
  "\<not> (tvIndex s < maxTVsPerWall c \<and> attempts s < maxAttempts c) \<Longrightarrow> wall_loop rng c w s = Inr s"
  by (subst wall_loop.simps) auto

lemmas layout_eval =
  layout_def walls_def wall_body_def js_index_def sizes_def sample_x_def sample_y_def
  isSideWall_def new_VintageTV_def getRandomDesign_def overlapX_def overlapY_def
  world_position_def Let_def tryPlace_numeral wall_loop_continue wall_loop_stop

lemma valid_grid_rng: "valid_rng grid_rng"
proof -
  have "real (k mod 10) \<le> 9" for k :: nat
  proof -
    have "k mod 10 \<le> 9" by simp
    then show ?thesis using of_nat_le_iff [of "k mod 10" 9, where 'a = real] by simp
  qed
  then have "0 \<le> grid_rng i \<and> grid_rng i < 1" for i
    using \<open>real ((i div 10) mod 10) \<le> 9\<close> 
    by (auto simp: grid_rng_def)
  then show ?thesis by (simp add: valid_rng_def)
qed

lemma grid_layout:
  "\<exists>objs. addVintageTVWall grid_rng = Inr (grid_results, objs, 400)"
  by (simp add: addVintageTVWall_def source_consts_def grid_rng_def layout_eval
      grid_results_def grid_back_def grid_side_def)

section \<open>The layout: claims\<close>

text \<open>
  C1. In every layout that \<open>addVintageTVWall\<close> completes, with the source's constants or any
  others, two different footprints recorded on the same wall satisfy the separating-axis
  condition \<open>|x1 - x2| \<ge> (w1 + w2) / 2\<close> or \<open>|y1 - y2| \<ge> (h1 + h2) / 2\<close>. With a 1.0 by 0.8
  footprint at (0, 0), the overlap test rejects a 1.0 by 0.8 candidate at (0.9, 0) and accepts
  one at (1.1, 0).
\<close>

theorem no_overlap_invariant:
  "(layout rng c = Inr (rs, objs, i) \<longrightarrow> r \<in> set rs \<longrightarrow>
      j < length (placed r) \<longrightarrow> k < length (placed r) \<longrightarrow> j \<noteq> k \<longrightarrow>
      separated (placed r ! j) (placed r ! k)) \<and>
   \<not> canPlace 0.9 0 (sizeConfigs Medium) [medium_at_origin] \<and>
   canPlace 1.1 0 (sizeConfigs Medium) [medium_at_origin]"
proof -
  have "separated (placed r ! j) (placed r ! k)"
    if "layout rng c = Inr (rs, objs, i)" "r \<in> set rs"
      "j < length (placed r)" "k < length (placed r)" "j \<noteq> k"
  proof -
    from that(1) have "\<forall>r \<in> set rs. wall_result_ok c r"
      unfolding layout_def by (rule forEach_wall_results [THEN conjunct2, THEN conjunct1])
    with that(2) have "no_overlap (placed r)" by (simp add: wall_result_ok_def)
    with that(3-5) show ?thesis by (simp add: no_overlap_nth)
  qed
  moreover have "\<not> canPlace 0.9 0 (sizeConfigs Medium) [medium_at_origin]"
    by (simp add: medium_at_origin_def overlapX_def overlapY_def)
  moreover have "canPlace 1.1 0 (sizeConfigs Medium) [medium_at_origin]"
    by (simp add: medium_at_origin_def overlapX_def overlapY_def)
  ultimately show ?thesis by blast
qed

theorem no_overlap_invariant_witness:
  "(\<exists>objs. layout grid_rng source_consts = Inr (grid_results, objs, 400)) \<and>
   separated (grid_side ! 0) (grid_side ! 1)"
proof -
  from grid_layout obtain objs where l: "layout grid_rng source_consts = Inr (grid_results, objs, 400)"
    by (auto simp: addVintageTVWall_def)
  let ?r = "\<lparr>on_wall = Left, placed = grid_side, placed_count = 10, attempts_used = 10\<rparr>"
  have "?r \<in> set grid_results" by (simp add: grid_results_def)
  moreover have "0 < length (placed ?r)" "1 < length (placed ?r)" by (simp_all add: grid_side_def)
  ultimately have "separated (placed ?r ! 0) (placed ?r ! 1)"
    using no_overlap_invariant [of grid_rng source_consts grid_results objs 400 ?r 0 1] l
    by simp
  with l show ?thesis by auto
qed

text \<open>
  C7. Under the contract of \<open>Math.random\<close> the layout returns. Every iteration of a wall's
  loop returns and adds exactly one to \<open>attempts\<close>, whether or not it placed a television; each
  of the four walls ends with \<open>attempts\<close> at most 100 and at most 10 televisions placed, and the
  scene holds at most 40.
\<close>

theorem layout_terminates:
  assumes "valid_rng rng"
  shows "(\<exists>rs objs i. addVintageTVWall rng = Inr (rs, objs, i) \<and>
            map on_wall rs = [Back, Front, Left, Right] \<and>
            (\<forall>r \<in> set rs. attempts_used r \<le> 100 \<and> placed_count r \<le> 10 \<and>
                            length (placed r) = placed_count r) \<and>
            length objs = sum_list (map placed_count rs) \<and> length objs \<le> 40) \<and>
         (\<forall>w s. \<exists>s'. wall_body rng source_consts w s = Inr s' \<and> attempts s' = attempts s + 1)"
proof -
  from forEach_wall_total [OF assms] obtain res
    where "forEach_wall rng source_consts (walls source_consts) ([], 0) = Inr res"
    by blast
  then obtain rs objs i where l: "forEach_wall rng source_consts (walls source_consts) ([], 0)
      = Inr (rs, objs, i)"
    by (cases res) auto
  from forEach_wall_results [OF l]
  have names: "map on_wall rs = [Back, Front, Left, Right]"
    and ok: "\<forall>r \<in> set rs. wall_result_ok source_consts r"
    and len: "length objs = sum_list (map placed_count rs)"
    by (simp_all add: walls_def)
  from names have "length (map on_wall rs) = length [Back, Front, Left, Right]" by simp
  then have "length rs = 4" by simp
  from ok have le10: "\<forall>r \<in> set rs. placed_count r \<le> 10"
    by (simp add: wall_result_ok_def source_consts_def)
  then have "sum_list (map placed_count rs) \<le> sum_list (map (\<lambda>r. 10) rs)"
    by (intro sum_list_mono) simp
  with \<open>length rs = 4\<close> have "sum_list (map placed_count rs) \<le> 40"
    by (simp add: sum_list_triv)
  with l names ok len have first: "\<exists>rs objs i. addVintageTVWall rng = Inr (rs, objs, i) \<and>
            map on_wall rs = [Back, Front, Left, Right] \<and>
            (\<forall>r \<in> set rs. attempts_used r \<le> 100 \<and> placed_count r \<le> 10 \<and>
                            length (placed r) = placed_count r) \<and>
            length objs = sum_list (map placed_count rs) \<and> length objs \<le> 40"
    by (auto simp: addVintageTVWall_def layout_def wall_result_ok_def source_consts_def)
  have "\<exists>s'. wall_body rng source_consts w s = Inr s' \<and> attempts s' = attempts s + 1" for w s
    using wall_body_total [OF assms, of source_consts w s] wall_body_attempts by blast
  with first show ?thesis by blast
qed

theorem layout_terminates_witness:
  "valid_rng grid_rng \<and>
   (\<exists>rs objs i. addVintageTVWall grid_rng = Inr (rs, objs, i) \<and> length objs \<le> 40)"
  using layout_terminates [OF valid_grid_rng] valid_grid_rng by blast

text \<open>
  C10. On a side wall the anchor's x is sampled from the vertical extent with the height's
  clearance and its y from the horizontal extent with the width's clearance, while the overlap
  test compares x distances with widths and y distances with heights. Every size class is
  wider than high. So there is a run of \<open>addVintageTVWall\<close> that accepts two televisions on the
  left wall whose anchors satisfy the separating-axis condition (their y distance, 0.71, is at
  least the 0.6 of their heights) and whose rectangles in world space, width along the wall and
  height upwards, overlap (0.71 is less than the 0.8 of their widths, and their x distance,
  0.518, is less than 0.6).
\<close>

theorem side_wall_world_overlap:
  "(\<forall>c config r. sample_x c True config r = r * (wallHeight c - height config) + height config / 2 \<and>
      sample_y c True config r = (r - 0.5) * (roomSize c - width config)) \<and>
   (\<forall>sz. height (sizeConfigs sz) < width (sizeConfigs sz)) \<and>
   (\<exists>rng rs objs i w r p q.
      valid_rng rng \<and> addVintageTVWall rng = Inr (rs, objs, i) \<and>
      w \<in> set (walls source_consts) \<and> isSideWall w \<and> r \<in> set rs \<and> on_wall r = name w \<and>
      1 < length (placed r) \<and> p = placed r ! 0 \<and> q = placed r ! 1 \<and>
      \<bar>tv_x p - tv_x q\<bar> < (height p + height q) / 2 \<and>
      (height p + height q) / 2 \<le> \<bar>tv_y p - tv_y q\<bar> \<and>
      \<bar>tv_y p - tv_y q\<bar> < (width p + width q) / 2 \<and>
      separated p q \<and> world_overlap w p q)"
proof -
  have sizes: "height (sizeConfigs sz) < width (sizeConfigs sz)" for sz
    by (cases sz) simp_all
  from grid_layout obtain objs where l: "addVintageTVWall grid_rng = Inr (grid_results, objs, 400)"
    by blast
  let ?w = "\<lparr>name = Left, pos = (- wallDepth source_consts + 0.1, 0, 0), rot = Math_PI / 2\<rparr>"
  let ?r = "\<lparr>on_wall = Left, placed = grid_side, placed_count = 10, attempts_used = 10\<rparr>"
  let ?p = "grid_side ! 0" and ?q = "grid_side ! 1"
  have w: "?w \<in> set (walls source_consts)" "isSideWall ?w"
    by (simp_all add: walls_def isSideWall_def)
  have r: "?r \<in> set grid_results" "on_wall ?r = name ?w" "1 < length (placed ?r)"
    by (simp_all add: grid_results_def grid_side_def)
  have g: "\<bar>tv_x ?p - tv_x ?q\<bar> < (height ?p + height ?q) / 2"
    "(height ?p + height ?q) / 2 \<le> \<bar>tv_y ?p - tv_y ?q\<bar>"
    "\<bar>tv_y ?p - tv_y ?q\<bar> < (width ?p + width ?q) / 2"
    by (simp_all add: grid_side_def)
  from g(2) have s: "separated ?p ?q" by (simp add: separated_def)
  from g have o: "world_overlap ?w ?p ?q"
    by (simp add: world_overlap_def world_horizontal_def world_vertical_def world_position_def
        isSideWall_def)
  have "\<exists>rng rs objs i w r p q.
      valid_rng rng \<and> addVintageTVWall rng = Inr (rs, objs, i) \<and>
      w \<in> set (walls source_consts) \<and> isSideWall w \<and> r \<in> set rs \<and> on_wall r = name w \<and>
      1 < length (placed r) \<and> p = placed r ! 0 \<and> q = placed r ! 1 \<and>
      \<bar>tv_x p - tv_x q\<bar> < (height p + height q) / 2 \<and>
      (height p + height q) / 2 \<le> \<bar>tv_y p - tv_y q\<bar> \<and>
      \<bar>tv_y p - tv_y q\<bar> < (width p + width q) / 2 \<and>
      separated p q \<and> world_overlap w p q"
    apply (rule exI [of _ grid_rng], rule exI [of _ grid_results], rule exI [of _ objs],
        rule exI [of _ 400], rule exI [of _ ?w], rule exI [of _ ?r],
        rule exI [of _ ?p], rule exI [of _ ?q])
    using valid_grid_rng l w r g s o by simp
  with sizes show ?thesis by (simp add: sample_x_def sample_y_def)
qed


section \<open>Navigation: lemmas\<close>

subsection \<open>\<open>Math.PI\<close> lies below \<open>pi\<close>\<close>



lemma Math_PI_pos: "0 < Math_PI"
  by (simp add: Math_PI_def)

subsection \<open>Vectors\<close>

lemma length_vec_nonneg: "0 \<le> length_vec a"
  by (simp add: length_vec_def)

lemma length_vec_multiplyScalar: "length_vec (multiplyScalar a k) = \<bar>k\<bar> * length_vec a"
proof -
  have "vec_x a * k * (vec_x a * k) + vec_y a * k * (vec_y a * k) + vec_z a * k * (vec_z a * k)
      = k\<^sup>2 * (vec_x a * vec_x a + vec_y a * vec_y a + vec_z a * vec_z a)"
    by (simp add: power2_eq_square algebra_simps)
  then show ?thesis
    by (simp add: length_vec_def multiplyScalar_def Vec3_def real_sqrt_mult)
qed

lemma length_vec_normalize:
  assumes "length_vec a \<noteq> 0"
  shows "length_vec (normalize_vec a) = 1"
  using assms length_vec_nonneg [of a]
  by (simp add: normalize_vec_def divideScalar_def length_vec_multiplyScalar)

lemma length_vec_axis: "length_vec (Vec3 a 0 0) = \<bar>a\<bar>"
  by (simp add: length_vec_def Vec3_def)

lemma length_vec_zero: "length_vec (Vec3 0 0 0) = 0"
  by (simp add: length_vec_def Vec3_def)

lemma multiplyScalar_zero: "multiplyScalar (Vec3 0 0 0) k = Vec3 0 0 0"
  by (simp add: multiplyScalar_def Vec3_def)

lemma add_vec_zero: "add_vec a (Vec3 0 0 0) = a"
  by (simp add: add_vec_def Vec3_def)

subsection \<open>The tick\<close>

lemma accelerate_frame:
  "camera (accelerate s) = camera s" "bounds (accelerate s) = bounds s"
  "isPointerLocked (accelerate s) = isPointerLocked s" "keys (accelerate s) = keys s"
  "friction (accelerate s) = friction s" "moveSpeed (accelerate s) = moveSpeed s"
  "lookSpeed (accelerate s) = lookSpeed s" "pitch (accelerate s) = pitch s" "yaw (accelerate s) = yaw s"
  by (simp_all add: accelerate_def Let_def)

lemma integrate_frame:
  "velocity (integrate s) = velocity s" "bounds (integrate s) = bounds s"
  "isPointerLocked (integrate s) = isPointerLocked s" "keys (integrate s) = keys s"
  "friction (integrate s) = friction s" "moveSpeed (integrate s) = moveSpeed s"
  "lookSpeed (integrate s) = lookSpeed s" "pitch (integrate s) = pitch s" "yaw (integrate s) = yaw s"
  "cam_rotation (camera (integrate s)) = cam_rotation (camera s)"
  by (simp_all add: integrate_def Let_def)

lemma clamp_to_bounds_in:
  assumes "minX b \<le> maxX b" "minY b \<le> maxY b" "minZ b \<le> maxZ b"
  shows "in_bounds b (clamp_to_bounds b p)"
  using assms by (simp add: in_bounds_def clamp_to_bounds_def Let_def)

lemma input_acceleration_no_keys:
  "no_movement_keys s \<Longrightarrow> input_acceleration s = Vec3 0 0 0"
  by (simp add: input_acceleration_def no_movement_keys_def Let_def multiplyScalar_zero
      split: prod.splits)

lemma accelerate_speed:
  assumes "0 \<le> friction s"
  shows "length_vec (velocity (accelerate s)) \<le> friction s * 0.08"
proof -
  define v1 where "v1 = add_vec (velocity s) (input_acceleration s)"
  define v2 where "v2 = (if length_vec v1 > 0.08
                then multiplyScalar (normalize_vec v1) 0.08 else v1)"
  have "length_vec v2 \<le> 0.08"
  proof (cases "length_vec v1 > 0.08")
    case True
    then have "length_vec v1 \<noteq> 0" by simp
    then have "length_vec (normalize_vec v1) = 1" by (rule length_vec_normalize)
    with True show ?thesis by (simp add: v2_def length_vec_multiplyScalar)
  next
    case False
    then show ?thesis by (simp add: v2_def)
  qed
  moreover have "velocity (accelerate s) = multiplyScalar v2 (friction s)"
    by (simp add: accelerate_def Let_def v1_def v2_def)
  moreover from assms \<open>length_vec v2 \<le> 0.08\<close>
  have "friction s * length_vec v2 \<le> friction s * 0.08"
    by (rule mult_left_mono [rotated])
  ultimately show ?thesis using assms
    by (simp only: length_vec_multiplyScalar abs_of_nonneg)
qed

lemma accelerate_no_keys:
  assumes "no_movement_keys s" "length_vec (velocity s) \<le> 0.08"
  shows "velocity (accelerate s) = multiplyScalar (velocity s) (friction s)"
  using assms by (simp add: accelerate_def Let_def input_acceleration_no_keys add_vec_zero)

lemma update_class_inv:
  assumes "class_inv s"
  shows "class_inv (update s)"
proof (cases "isPointerLocked s")
  case False
  with assms show ?thesis by (simp add: update_def)
next
  case True
  from assms have "length_vec (velocity (accelerate s)) \<le> 0.95 * 0.08"
    using accelerate_speed [of s] by (simp add: class_inv_def)
  with assms True show ?thesis
    by (simp add: update_def class_inv_def integrate_frame accelerate_frame)
qed

lemma onMouseMove_frame:
  "velocity (onMouseMove dx dy s) = velocity s" "friction (onMouseMove dx dy s) = friction s"
  "moveSpeed (onMouseMove dx dy s) = moveSpeed s" "lookSpeed (onMouseMove dx dy s) = lookSpeed s"
  "isPointerLocked (onMouseMove dx dy s) = isPointerLocked s" "keys (onMouseMove dx dy s) = keys s"
  by (simp_all add: onMouseMove_def Let_def)

lemma handler_class_inv: "class_inv s \<Longrightarrow> class_inv (handler e s)"
  by (cases e)
    (simp_all add: class_inv_def onKeyDown_def onKeyUp_def onClick_def onPointerLockChange_def
      onPointerLockError_def onMouseMove_frame Let_def)

lemma reachable_class_inv: "reachable s \<Longrightarrow> class_inv s"
proof (induction rule: reachable.induct)
  case (constructed cam)
  show ?case by (simp add: class_inv_def new_FPSCameraControls_def length_vec_zero)
next
  case (delivered s e)
  then show ?case by (simp add: dispatch_def handler_class_inv)
next
  case (host_lock s b)
  then show ?case by (simp add: class_inv_def)
next
  case (tick s)
  then show ?case by (simp add: update_class_inv)
next
  case (bounds_set s p)
  then show ?case by (simp add: class_inv_def setBounds_def)
next
  case (disposed s)
  then show ?case by (simp add: class_inv_def dispose_def exitPointerLock_def Let_def)
qed

lemma update_no_keys:
  assumes "isPointerLocked s" "no_movement_keys s" "class_inv s"
  shows "velocity (update s) = multiplyScalar (velocity s) 0.95"
    and "isPointerLocked (update s)" and "no_movement_keys (update s)" and "class_inv (update s)"
proof -
  from assms(3) have f: "friction s = 0.95" and v: "length_vec (velocity s) \<le> 0.08"
    unfolding class_inv_def by blast+
  from assms(1) accelerate_no_keys [OF assms(2) v]
  have "velocity (update s) = multiplyScalar (velocity s) (friction s)"
    by (simp add: update_def integrate_frame)
  then show "velocity (update s) = multiplyScalar (velocity s) 0.95"
    by (simp only: f)
  from assms show "isPointerLocked (update s)"
    by (simp add: update_def integrate_frame accelerate_frame)
  from assms show "no_movement_keys (update s)"
    by (simp add: update_def no_movement_keys_def held_def integrate_frame accelerate_frame)
  from assms show "class_inv (update s)" by (simp add: update_class_inv)
qed

lemma ticks_no_keys:
  "isPointerLocked s \<Longrightarrow> no_movement_keys s \<Longrightarrow> class_inv s \<Longrightarrow>
   length_vec (velocity (ticks n s)) = 0.95 ^ n * length_vec (velocity s)"
proof (induction n arbitrary: s)
  case 0
  then show ?case by simp
next
  case (Suc n)
  from Suc.prems have "length_vec (velocity (ticks n (update s)))
      = 0.95 ^ n * length_vec (velocity (update s))"
    by (intro Suc.IH update_no_keys)
  with Suc.prems show ?case
    by (simp add: update_no_keys(1) length_vec_multiplyScalar)
qed


section \<open>Navigation: claims\<close>

text \<open>
  C3. A tick while the pointer is locked is \<open>accelerate\<close> followed by \<open>integrate\<close>. If each
  minimum of the bounds is at most its maximum, the camera's position after the tick lies
  within the bounds on all three axes. \<open>integrate\<close>, the step that clamps, writes the position
  only: the velocity after it is the velocity before it, on every axis and in every state, and
  the position is the clamp of the old position plus that velocity.
\<close>

theorem position_within_bounds:
  assumes "isPointerLocked s"
    and "minX (bounds s) \<le> maxX (bounds s)" and "minY (bounds s) \<le> maxY (bounds s)"
    and "minZ (bounds s) \<le> maxZ (bounds s)"
  shows "in_bounds (bounds s) (cam_position (camera (update s))) \<and>
         update s = integrate (accelerate s) \<and>
         (\<forall>t. velocity (integrate t) = velocity t) \<and>
         cam_position (camera (update s)) =
           clamp_to_bounds (bounds s) (add_vec (cam_position (camera s)) (velocity (update s)))"
  using assms
  by (simp add: update_def integrate_def Let_def accelerate_frame clamp_to_bounds_in)

lemma captured0_locked: "isPointerLocked captured0"
  by (simp add: captured0_def released0_def dispatch_def new_FPSCameraControls_def
      onPointerLockChange_def Let_def)

lemma captured0_fields:
  "keys captured0 = Map.empty" "friction captured0 = 0.95" "lookSpeed captured0 = 0.0002"
  "moveSpeed captured0 = 0.01" "pitch captured0 = 0" "yaw captured0 = 0"
  "bounds captured0 = \<lparr>minX = -7, maxX = 7, minZ = -7, maxZ = 7, minY = 1, maxY = 8\<rparr>"
  "velocity captured0 = Vec3 0 0 0" "camera captured0 = cam0"
  by (simp_all add: captured0_def released0_def dispatch_def new_FPSCameraControls_def
      onPointerLockChange_def Let_def)

lemma at_wall_update:
  "velocity (update at_wall) = Vec3 (19 / 400) 0 0"
  "cam_position (camera (update at_wall)) = Vec3 7 2 0"
proof -
  have n: "no_movement_keys at_wall"
    by (simp add: at_wall_def no_movement_keys_def held_def captured0_fields)
  have v: "velocity at_wall = Vec3 (1 / 20) 0 0" by (simp add: at_wall_def)
  have l: "length_vec (velocity at_wall) \<le> 0.08" by (simp add: v length_vec_axis)
  have "velocity (accelerate at_wall) = multiplyScalar (velocity at_wall) (friction at_wall)"
    using n l by (rule accelerate_no_keys)
  then have a: "velocity (accelerate at_wall) = Vec3 (19 / 400) 0 0"
    by (simp add: v at_wall_def captured0_fields multiplyScalar_def Vec3_def)
  then show "velocity (update at_wall) = Vec3 (19 / 400) 0 0"
    by (simp add: update_def at_wall_def captured0_locked integrate_frame)
  from a show "cam_position (camera (update at_wall)) = Vec3 7 2 0"
    by (simp add: update_def integrate_def Let_def accelerate_frame clamp_to_bounds_def
        add_vec_def Vec3_def at_wall_def captured0_locked captured0_fields)
qed

theorem position_within_bounds_witness:
  "isPointerLocked at_wall \<and> in_bounds (bounds at_wall) (cam_position (camera (update at_wall))) \<and>
   cam_position (camera at_wall) = Vec3 7 2 0 \<and>
   velocity (update at_wall) = Vec3 (19 / 400) 0 0 \<and>
   cam_position (camera (update at_wall)) = Vec3 7 2 0"
proof -
  have l: "isPointerLocked at_wall" by (simp add: at_wall_def captured0_locked)
  have b: "bounds at_wall = \<lparr>minX = -7, maxX = 7, minZ = -7, maxZ = 7, minY = 1, maxY = 8\<rparr>"
    by (simp add: at_wall_def captured0_fields)
  have o: "minX (bounds at_wall) \<le> maxX (bounds at_wall)"
    "minY (bounds at_wall) \<le> maxY (bounds at_wall)" "minZ (bounds at_wall) \<le> maxZ (bounds at_wall)"
    by (simp_all add: b)
  from position_within_bounds [OF l o]
  have "in_bounds (bounds at_wall) (cam_position (camera (update at_wall)))" by (rule conjunct1)
  moreover have "cam_position (camera at_wall) = Vec3 7 2 0" by (simp add: at_wall_def)
  ultimately show ?thesis using l at_wall_update by simp
qed


subsection \<open>Look\<close>

lemma clamp_pitch_range: "- Math_PI / 2 \<le> clamp_pitch p \<and> clamp_pitch p \<le> Math_PI / 2"
  using Math_PI_pos unfolding clamp_pitch_def by linarith

lemma onMouseMove_pitch:
  "isPointerLocked s \<Longrightarrow> pitch (onMouseMove dx dy s) = clamp_pitch (pitch s - dy * (lookSpeed s * 50))"
  by (simp add: onMouseMove_def Let_def)

lemma onMouseMove_yaw:
  "isPointerLocked s \<Longrightarrow> yaw (onMouseMove dx dy s) = yaw s - dx * (lookSpeed s * 50)"
  by (simp add: onMouseMove_def Let_def)

lemma look_all_frame:
  "isPointerLocked (look_all ds s) = isPointerLocked s" "lookSpeed (look_all ds s) = lookSpeed s"
  by (induction ds s rule: look_all.induct) (simp_all add: onMouseMove_frame)

lemma look_all_snoc: "look_all (ds @ [(dx, dy)]) s = onMouseMove dx dy (look_all ds s)"
  by (induction ds s rule: look_all.induct) simp_all

lemma look_all_pitch_range:
  assumes "isPointerLocked s" "ds \<noteq> []"
  shows "- Math_PI / 2 \<le> pitch (look_all ds s) \<and> pitch (look_all ds s) \<le> Math_PI / 2"
proof -
  from assms(2) obtain ds' d where "ds = ds' @ [d]" by (metis rev_exhaust)
  moreover obtain dx dy where "d = (dx, dy)" by (cases d)
  ultimately have "look_all ds s = onMouseMove dx dy (look_all ds' s)"
    by (simp add: look_all_snoc)
  moreover from assms(1) have "isPointerLocked (look_all ds' s)" by (simp add: look_all_frame)
  ultimately have "pitch (look_all ds s) =
      clamp_pitch (pitch (look_all ds' s) - dy * (lookSpeed (look_all ds' s) * 50))"
    by (simp add: onMouseMove_pitch)
  then show ?thesis by (simp only: clamp_pitch_range)
qed

lemma pitch_driving_downward:
  "\<forall>(dx, dy) \<in> set ds. 0 \<le> dy * k \<Longrightarrow> pitch_driving k ds \<le> 0"
  by (induction k ds rule: pitch_driving.induct) auto

lemma look_all_downward:
  assumes "isPointerLocked s" "- Math_PI / 2 \<le> pitch s" "pitch s \<le> Math_PI / 2"
    and "\<forall>(dx, dy) \<in> set ds. 0 \<le> dy * (lookSpeed s * 50)"
  shows "pitch (look_all ds s) = max (- Math_PI / 2) (pitch s + pitch_driving (lookSpeed s * 50) ds)"
  using assms
proof (induction ds arbitrary: s)
  case Nil
  then show ?case by simp
next
  case (Cons d ds)
  obtain dx dy where d: "d = (dx, dy)" by (cases d)
  let ?k = "lookSpeed s * 50"
  let ?s1 = "onMouseMove dx dy s"
  from Cons.prems d have down: "0 \<le> dy * ?k" by simp
  from Cons.prems have p1: "pitch ?s1 = clamp_pitch (pitch s - dy * ?k)"
    by (simp add: onMouseMove_pitch)
  with down Cons.prems(3) have p1': "pitch ?s1 = max (- Math_PI / 2) (pitch s - dy * ?k)"
    unfolding clamp_pitch_def by linarith
  have range: "- Math_PI / 2 \<le> pitch ?s1 \<and> pitch ?s1 \<le> Math_PI / 2"
    unfolding p1 by (rule clamp_pitch_range)
  from Cons.prems d have rest: "\<forall>(dx, dy) \<in> set ds. 0 \<le> dy * (lookSpeed ?s1 * 50)"
    by (simp add: onMouseMove_frame)
  then have le: "pitch_driving ?k ds \<le> 0"
    using pitch_driving_downward [of ds ?k] by (simp add: onMouseMove_frame)
  from Cons.prems have "isPointerLocked ?s1" by (simp add: onMouseMove_frame)
  with Cons.IH [of ?s1] range rest
  have "pitch (look_all ds ?s1) = max (- Math_PI / 2) (pitch ?s1 + pitch_driving ?k ds)"
    by (simp add: onMouseMove_frame)
  then have "pitch (look_all (d # ds) s) = max (- Math_PI / 2) (pitch ?s1 + pitch_driving ?k ds)"
    by (simp add: d)
  moreover have "pitch_driving ?k (d # ds) = - dy * ?k + pitch_driving ?k ds"
    by (simp add: d)
  ultimately show ?case using p1' le by linarith
qed

text \<open>
  C4, as stated, fails in its parenthesis: a run of pointer deltas whose pitch-driving sums to
  \<open>- 2 * Math.PI\<close> need not end at \<open>- Math.PI / 2\<close>. From pitch 0, a delta driving the pitch
  by \<open>- 3 * Math.PI\<close> (clamped at \<open>- Math.PI / 2\<close>) followed by one driving it by \<open>Math.PI\<close>
  ends at \<open>Math.PI / 2\<close>.
\<close>

theorem zigzag_counterexample:
  "isPointerLocked captured0 \<and> pitch captured0 = 0 \<and>
   pitch_driving (lookSpeed captured0 * 50) zigzag_deltas = - 2 * Math_PI \<and>
   pitch (look_all zigzag_deltas captured0) = Math_PI / 2 \<and>
   pitch (look_all zigzag_deltas captured0) \<noteq> - Math_PI / 2"
proof -
  have k: "lookSpeed captured0 * 50 = 1 / 100" by (simp add: captured0_fields)
  have d: "pitch_driving (lookSpeed captured0 * 50) zigzag_deltas = - 2 * Math_PI"
    by (simp add: k zigzag_deltas_def)
  let ?s1 = "onMouseMove 0 (300 * Math_PI) captured0"
  have "pitch ?s1 = clamp_pitch (0 - 300 * Math_PI * (1 / 100))"
    using onMouseMove_pitch [OF captured0_locked, of 0 "300 * Math_PI"] by (simp add: captured0_fields)
  then have p1: "pitch ?s1 = - Math_PI / 2" using Math_PI_pos by (simp add: clamp_pitch_def)
  have l1: "isPointerLocked ?s1" "lookSpeed ?s1 * 50 = 1 / 100"
    by (simp_all add: onMouseMove_frame captured0_locked captured0_fields)
  have "pitch (onMouseMove 0 (- 100 * Math_PI) ?s1) = clamp_pitch (- Math_PI / 2 - (- 100 * Math_PI) * (1 / 100))"
    using onMouseMove_pitch [OF l1(1), of 0 "- 100 * Math_PI"] l1(2) p1 by simp
  then have "pitch (onMouseMove 0 (- 100 * Math_PI) ?s1) = Math_PI / 2"
    using Math_PI_pos by (simp add: clamp_pitch_def)
  then have p: "pitch (look_all zigzag_deltas captured0) = Math_PI / 2"
    by (simp add: zigzag_deltas_def)
  moreover from p have "pitch (look_all zigzag_deltas captured0) \<noteq> - Math_PI / 2"
    using Math_PI_pos by linarith
  ultimately show ?thesis using d captured0_locked captured0_fields(5) by blast
qed

text \<open>
  C4, amended. While the pointer is locked, a pointer delta \<open>(dx, dy)\<close> sets the pitch to the
  clamp of \<open>pitch - dy * sensitivity\<close> and the yaw to \<open>yaw - dx * sensitivity\<close>, unclamped, with
  \<open>sensitivity = lookSpeed * 50\<close>; after every non-empty run of deltas the pitch lies in
  \<open>[- Math.PI / 2, Math.PI / 2]\<close>. A run of deltas that each drive the pitch downwards, starting
  from a pitch in that range and driving it by \<open>- Math.PI\<close> or more in total (by \<open>- 2 pi\<close>, say),
  ends at exactly \<open>- Math.PI / 2\<close>.
\<close>

theorem look_update_clamped:
  assumes "isPointerLocked s"
  shows "pitch (onMouseMove dx dy s) = clamp_pitch (pitch s - dy * (lookSpeed s * 50)) \<and>
         yaw (onMouseMove dx dy s) = yaw s - dx * (lookSpeed s * 50) \<and>
         (ds \<noteq> [] \<longrightarrow> - Math_PI / 2 \<le> pitch (look_all ds s) \<and> pitch (look_all ds s) \<le> Math_PI / 2) \<and>
         (- Math_PI / 2 \<le> pitch s \<and> pitch s \<le> Math_PI / 2 \<and>
          (\<forall>(dx, dy) \<in> set ds. 0 \<le> dy * (lookSpeed s * 50)) \<and>
          pitch_driving (lookSpeed s * 50) ds \<le> - Math_PI \<longrightarrow>
            pitch (look_all ds s) = - Math_PI / 2)"
proof -
  have "pitch (look_all ds s) = - Math_PI / 2"
    if "- Math_PI / 2 \<le> pitch s" "pitch s \<le> Math_PI / 2"
      "\<forall>(dx, dy) \<in> set ds. 0 \<le> dy * (lookSpeed s * 50)"
      "pitch_driving (lookSpeed s * 50) ds \<le> - Math_PI"
  proof -
    from look_all_downward [OF assms that(1-3)]
    have "pitch (look_all ds s) =
        max (- Math_PI / 2) (pitch s + pitch_driving (lookSpeed s * 50) ds)" .
    with that(2,4) show ?thesis by linarith
  qed
  moreover have "- Math_PI / 2 \<le> pitch (look_all ds s) \<and> pitch (look_all ds s) \<le> Math_PI / 2"
    if "ds \<noteq> []"
    using assms that by (rule look_all_pitch_range)
  moreover note onMouseMove_pitch [OF assms, of dx dy] onMouseMove_yaw [OF assms, of dx dy]
  ultimately show ?thesis by blast
qed

theorem look_update_clamped_witness:
  "isPointerLocked captured0 \<and> downward_deltas \<noteq> [] \<and>
   pitch_driving (lookSpeed captured0 * 50) downward_deltas = - 2 * Math_PI \<and>
   pitch (look_all downward_deltas captured0) = - Math_PI / 2 \<and>
   yaw (onMouseMove 3 0 captured0) = - 3 / 100"
proof -
  have k: "lookSpeed captured0 * 50 = 1 / 100" by (simp add: captured0_fields)
  have d: "pitch_driving (lookSpeed captured0 * 50) downward_deltas = - 2 * Math_PI"
    by (simp add: k downward_deltas_def)
  have r: "- Math_PI / 2 \<le> pitch captured0 \<and> pitch captured0 \<le> Math_PI / 2"
    using Math_PI_pos by (simp add: captured0_fields)
  have a: "\<forall>(dx, dy) \<in> set downward_deltas. 0 \<le> dy * (lookSpeed captured0 * 50)"
    using Math_PI_pos by (simp add: k downward_deltas_def)
  from d Math_PI_pos
  have "pitch_driving (lookSpeed captured0 * 50) downward_deltas \<le> - Math_PI" by linarith
  with look_update_clamped [OF captured0_locked, of 3 0 downward_deltas] r a
  have "pitch (look_all downward_deltas captured0) = - Math_PI / 2"
    and "yaw (onMouseMove 3 0 captured0) = yaw captured0 - 3 * (lookSpeed captured0 * 50)"
    by blast+
  with d captured0_locked k show ?thesis
    by (simp add: captured0_fields downward_deltas_def)
qed


subsection \<open>Decay\<close>

text \<open>
  C5. In a state that the controller can reach (or any state with its constants and a speed
  of at most 0.08), a tick with the pointer locked and none of the six movement keys held
  multiplies the velocity by 0.95. Its magnitude then falls strictly unless it is 0; after
  \<open>n\<close> such ticks it is \<open>0.95 ^ n\<close> times what it was, so at most \<open>0.08 * 0.95 ^ 20\<close> after 20.
\<close>

theorem decay_to_rest:
  assumes "isPointerLocked s" and "no_movement_keys s" and "reachable s \<or> class_inv s"
  shows "velocity (update s) = multiplyScalar (velocity s) 0.95 \<and>
         (length_vec (velocity s) \<noteq> 0 \<longrightarrow>
            length_vec (velocity (update s)) < length_vec (velocity s)) \<and>
         length_vec (velocity (ticks n s)) = 0.95 ^ n * length_vec (velocity s) \<and>
         length_vec (velocity (ticks 20 s)) \<le> 0.08 * 0.95 ^ 20"
proof -
  from assms(3) have inv: "class_inv s" by (auto dest: reachable_class_inv)
  from assms(1,2) inv have v: "velocity (update s) = multiplyScalar (velocity s) 0.95"
    by (rule update_no_keys(1))
  have e: "length_vec (velocity (update s)) = 0.95 * length_vec (velocity s)"
    by (simp add: v length_vec_multiplyScalar)
  have dec: "length_vec (velocity (update s)) < length_vec (velocity s)"
    if "length_vec (velocity s) \<noteq> 0"
  proof -
    from that length_vec_nonneg [of "velocity s"] have "0 < length_vec (velocity s)" by simp
    with e show ?thesis by simp
  qed
  from assms(1,2) inv
  have t: "length_vec (velocity (ticks m s)) = 0.95 ^ m * length_vec (velocity s)" for m
    by (rule ticks_no_keys)
  from inv have "length_vec (velocity s) \<le> 0.08" unfolding class_inv_def by blast
  then have "0.95 ^ 20 * length_vec (velocity s) \<le> 0.95 ^ 20 * (0.08 :: real)"
    by (intro mult_left_mono) simp_all
  with t [of 20] have "length_vec (velocity (ticks 20 s)) \<le> 0.08 * 0.95 ^ 20"
    by (simp only: mult.commute)
  with v dec t [of n] show ?thesis by blast
qed

lemma coasting_facts:
  "isPointerLocked coasting" "no_movement_keys coasting" "class_inv coasting"
  "velocity coasting = Vec3 (2 / 25) 0 0"
  by (simp_all add: coasting_def captured0_locked captured0_fields no_movement_keys_def held_def
      class_inv_def length_vec_axis)

theorem decay_to_rest_witness:
  "isPointerLocked coasting \<and> no_movement_keys coasting \<and> class_inv coasting \<and>
   length_vec (velocity coasting) = 0.08 \<and>
   velocity (update coasting) = Vec3 (19 / 250) 0 0 \<and>
   length_vec (velocity (update coasting)) < length_vec (velocity coasting) \<and>
   length_vec (velocity (ticks 20 coasting)) \<le> 0.08 * 0.95 ^ 20"
proof -
  have l: "length_vec (velocity coasting) = 0.08"
    by (simp add: coasting_facts(4) length_vec_axis)
  then have nz: "length_vec (velocity coasting) \<noteq> 0" by simp
  from decay_to_rest [OF coasting_facts(1,2), of 20] coasting_facts(3) nz
  have "velocity (update coasting) = multiplyScalar (velocity coasting) 0.95"
    and "length_vec (velocity (update coasting)) < length_vec (velocity coasting)"
    and "length_vec (velocity (ticks 20 coasting)) \<le> 0.08 * 0.95 ^ 20"
    by blast+
  moreover have "multiplyScalar (velocity coasting) 0.95 = Vec3 (19 / 250) 0 0"
    by (simp add: coasting_facts(4) multiplyScalar_def Vec3_def)
  ultimately show ?thesis using coasting_facts l by simp
qed

subsection \<open>Released\<close>

text \<open>
  C6. While the pointer is not locked, \<open>update\<close> returns the state it was given, and so does
  \<open>onMouseMove\<close>, called directly or through the host's delivery of a \<open>mousemove\<close> event. The
  key handlers record the key as held or released whatever the lock state, and leave the lock
  state alone.
\<close>

theorem released_is_inert:
  "(\<not> isPointerLocked s \<longrightarrow>
      update s = s \<and> onMouseMove dx dy s = s \<and> dispatch (MouseMove dx dy) s = s) \<and>
   keys (onKeyDown code s) = (keys s)(code \<mapsto> True) \<and>
   keys (onKeyUp code s) = (keys s)(code \<mapsto> False) \<and>
   held (onKeyDown code s) code \<and> \<not> held (onKeyUp code s) code \<and>
   isPointerLocked (onKeyDown code s) = isPointerLocked s \<and>
   isPointerLocked (onKeyUp code s) = isPointerLocked s"
  by (simp add: update_def onMouseMove_def dispatch_def onKeyDown_def onKeyUp_def held_def)

theorem released_is_inert_witness:
  "\<not> isPointerLocked released0 \<and> update released0 = released0 \<and>
   onMouseMove 5 5 released0 = released0 \<and>
   held (dispatch (KeyDown ''KeyW'') released0) ''KeyW'' \<and>
   \<not> isPointerLocked (dispatch (KeyDown ''KeyW'') released0) \<and>
   update (dispatch (KeyDown ''KeyW'') released0) = dispatch (KeyDown ''KeyW'') released0"
proof -
  have r: "\<not> isPointerLocked released0" by (simp add: released0_def new_FPSCameraControls_def)
  have d: "dispatch (KeyDown ''KeyW'') released0 = onKeyDown ''KeyW'' released0"
    by (simp add: dispatch_def released0_def new_FPSCameraControls_def)
  from released_is_inert [of released0 5 5 "''KeyW''"] r
  have "update released0 = released0" "onMouseMove 5 5 released0 = released0"
    "held (onKeyDown ''KeyW'' released0) ''KeyW''"
    "\<not> isPointerLocked (onKeyDown ''KeyW'' released0)"
    by blast+
  moreover from released_is_inert [of "onKeyDown ''KeyW'' released0" 0 0 "''KeyW''"]
    \<open>\<not> isPointerLocked (onKeyDown ''KeyW'' released0)\<close>
  have "update (onKeyDown ''KeyW'' released0) = onKeyDown ''KeyW'' released0" by blast
  ultimately show ?thesis using r d by simp
qed

subsection \<open>Disposal\<close>

lemma all_listeners_removed:
  "A - {L_keydown, L_keyup, L_click, L_pointerlockchange, L_pointerlockerror,
        L_contextmenu, L_mousemove} = {}"
proof -
  have "l \<in> {L_keydown, L_keyup, L_click, L_pointerlockchange, L_pointerlockerror,
                L_contextmenu, L_mousemove}" for l
    by (cases l) simp_all
  then show ?thesis by blast
qed

lemma dispose_fields:
  "isPointerLocked (dispose s) = isPointerLocked s"
  "listeners (dispose s) = {}"
  "host_calls (dispose s) = host_calls s @ (if isPointerLocked s then [ExitPointerLock] else [])"
  by (simp_all add: dispose_def exitPointerLock_def Let_def all_listeners_removed)

lemma reachable_captured0: "reachable captured0"
  unfolding captured0_def released0_def
  by (intro reachable.delivered reachable.host_lock reachable.constructed)

text \<open>
  C8. The claim asks that disposal while captured force the transition to Released. The
  code does not: \<open>dispose\<close> never writes \<open>isPointerLocked\<close>, and it removes the
  \<open>pointerlockchange\<close> listener, the only writer of that field, before it calls
  \<open>document.exitPointerLock\<close>. So in every state \<open>dispose\<close> leaves \<open>isPointerLocked\<close> as it was,
  makes the exit call exactly when the field is set, and no event reaches the controller
  afterwards. For the controller that holds the pointer lock: after \<open>dispose\<close> it is still
  captured; it stays captured when the host has dropped the lock and fires
  \<open>pointerlockchange\<close>; \<open>update\<close> still runs past its guard; and a second \<open>dispose\<close> calls
  \<open>exitPointerLock\<close> a second time.
\<close>

theorem dispose_leaves_captured:
  "isPointerLocked (dispose s) = isPointerLocked s \<and>
   host_calls (dispose s) = host_calls s @ (if isPointerLocked s then [ExitPointerLock] else []) \<and>
   dispatch e (dispose s) = dispose s \<and>
   reachable captured0 \<and> isPointerLocked captured0 \<and> host_calls captured0 = [] \<and>
   isPointerLocked (dispose captured0) \<and>
   isPointerLocked (dispatch PointerLockChange ((dispose captured0)\<lparr>pointerLockElement := False\<rparr>)) \<and>
   update (dispose captured0) = integrate (accelerate (dispose captured0)) \<and>
   host_calls (dispose (dispose captured0)) = [ExitPointerLock, ExitPointerLock]"
proof -
  have gone: "dispatch e (dispose s) = dispose s" for e s
    by (simp add: dispatch_def dispose_fields)
  have calls0: "host_calls captured0 = []"
    by (simp add: captured0_def released0_def dispatch_def new_FPSCameraControls_def
        onPointerLockChange_def Let_def)
  have still: "isPointerLocked (dispose captured0)"
    by (simp add: dispose_fields captured0_locked)
  have deaf: "isPointerLocked (dispatch PointerLockChange
      ((dispose captured0)\<lparr>pointerLockElement := False\<rparr>))"
    by (simp add: dispatch_def dispose_fields captured0_locked)
  have active: "update (dispose captured0) = integrate (accelerate (dispose captured0))"
    using still by (simp add: update_def)
  have twice: "host_calls (dispose (dispose captured0)) = [ExitPointerLock, ExitPointerLock]"
    by (simp add: dispose_fields captured0_locked calls0)
  from gone calls0 still deaf active twice reachable_captured0 captured0_locked
  show ?thesis by (simp add: dispose_fields)
qed

subsection \<open>The movement basis\<close>








lemma Vec3_flatten [simp]: "(Vec3 a b c)\<lparr>vec_y := d\<rparr> = Vec3 a d c"
  by (simp add: Vec3_def)










end
